theory Spec2Isabelle
  imports Complex_Main "HOL-Library.Sublist" "HOL-Library.AList"
begin

section \<open>swagger-aggregator: a shallow embedding of \<^verbatim>\<open>swagger_aggregator.py\<close>\<close>

text \<open>
  The development follows the source file function by function. Python dictionaries are
  association lists in insertion order with distinct keys, exceptions are values of a sum
  type, loops are recursive functions, and library calls whose code is not part of the
  repository (the HTTP client, the schema resolver of \<^verbatim>\<open>swagger_parser\<close>) are
  parameters of the functions that use them.
\<close>

subsection \<open>Exceptions and JSON values\<close>

text \<open>
  The exception classes the source catches or can raise, each with its message.
  \<^verbatim>\<open>ConnectionError\<close> is \<^verbatim>\<open>requests.exceptions.ConnectionError\<close>;
  \<^verbatim>\<open>JSONDecodeError\<close> is simplejson's (a subclass of \<^verbatim>\<open>ValueError\<close>, but
  every \<^verbatim>\<open>except\<close> clause of the source that names both tests it first).
\<close>

datatype py_error =
    ConnectionError string
  | JSONDecodeError string
  | ValueError string
  | KeyError string
  | IndexError string
  | TypeError string
  | AttributeError string
  | OtherError string

text \<open>
  Parsed JSON and YAML documents. A dictionary is an association list in insertion order;
  the functions below keep its keys distinct, as Python does.
\<close>

datatype json =
    JNull
  | JBool bool
  | JInt int
  | JStr string
  | JList "json list"
  | JDict "(string \<times> json) list"

text \<open>\<^verbatim>\<open>d[key]\<close> on a value: only a dictionary can be subscripted by a string.\<close>

definition py_getitem :: "json \<Rightarrow> string \<Rightarrow> py_error + json" where
  "py_getitem d key =
     (case d of
        JDict kvs \<Rightarrow> (case map_of kvs key of Some v \<Rightarrow> Inr v | None \<Rightarrow> Inl (KeyError key))
      | _ \<Rightarrow> Inl (TypeError ''indices must be integers''))"

text \<open>
  \<^verbatim>\<open>key in d\<close> for a string \<open>key\<close>: key membership in a dictionary, element
  membership in a list, substring test in a string; other values are not iterable.
\<close>

definition py_contains :: "string \<Rightarrow> json \<Rightarrow> py_error + bool" where
  "py_contains key d =
     (case d of
        JDict kvs \<Rightarrow> Inr (key \<in> set (map fst kvs))
      | JList xs \<Rightarrow> Inr (JStr key \<in> set xs)
      | JStr s \<Rightarrow> Inr (sublist key s)
      | _ \<Rightarrow> Inl (TypeError ''argument is not iterable''))"

text \<open>\<^verbatim>\<open>d.items()\<close>: only a dictionary has the method.\<close>

definition py_items :: "json \<Rightarrow> py_error + (string \<times> json) list" where
  "py_items d =
     (case d of
        JDict kvs \<Rightarrow> Inr kvs
      | _ \<Rightarrow> Inl (AttributeError ''items''))"

text \<open>A loop whose body may raise: the first exception ends it.\<close>

fun for_each :: "('a \<Rightarrow> 's \<Rightarrow> py_error + 's) \<Rightarrow> 'a list \<Rightarrow> 's \<Rightarrow> py_error + 's" where
  "for_each body [] s = Inr s"
| "for_each body (x # xs) s =
     (case body x s of Inl e \<Rightarrow> Inl e | Inr s' \<Rightarrow> for_each body xs s')"

subsection \<open>String methods of Python used by the source\<close>

text \<open>
  \<^verbatim>\<open>s.replace(old, new)\<close> for a non-empty \<open>old\<close>: one pass from the left, each
  occurrence found is replaced and the scan resumes after it (occurrences never overlap).
\<close>

fun replace_scan :: "string \<Rightarrow> string \<Rightarrow> string \<Rightarrow> string" where
  "replace_scan [] old new = []"
| "replace_scan (c # cs) old new =
     (if old \<noteq> [] \<and> prefix old (c # cs)
      then new @ replace_scan (drop (length old) (c # cs)) old new
      else c # replace_scan cs old new)"

text \<open>
  \<^verbatim>\<open>s.replace(old, new)\<close>. With an empty \<open>old\<close> Python inserts \<open>new\<close> before every
  character and at the end.
\<close>

definition py_replace :: "string \<Rightarrow> string \<Rightarrow> string \<Rightarrow> string" where
  "py_replace s old new =
     (if old = [] then new @ concat (map (\<lambda>c. c # new) s) else replace_scan s old new)"

text \<open>\<^verbatim>\<open>s.split(sep)\<close> for a one-character separator: never an empty list.\<close>

fun py_split :: "string \<Rightarrow> char \<Rightarrow> string list" where
  "py_split [] sep = [[]]"
| "py_split (c # cs) sep =
     (if c = sep then [] # py_split cs sep
      else (case py_split cs sep of
              [] \<Rightarrow> [[c]]
            | w # ws \<Rightarrow> (c # w) # ws))"

text \<open>\<^verbatim>\<open>s.lower()\<close> on the ASCII letters.\<close>

definition lower_char :: "char \<Rightarrow> char" where
  "lower_char c =
     (case map_of (zip ''ABCDEFGHIJKLMNOPQRSTUVWXYZ'' ''abcdefghijklmnopqrstuvwxyz'') c of
        Some l \<Rightarrow> l
      | None \<Rightarrow> c)"

definition py_lower :: "string \<Rightarrow> string" where
  "py_lower s = map lower_char s"

text \<open>\<^verbatim>\<open>xs[i]\<close> for a non-negative index.\<close>

definition py_index :: "'a list \<Rightarrow> nat \<Rightarrow> py_error + 'a" where
  "py_index xs i = (if i < length xs then Inr (xs ! i) else Inl (IndexError ''list index out of range''))"

subsection \<open>Binary floating point\<close>

text \<open>
  The durations of \<^verbatim>\<open>retry_http\<close> are Python floats, IEEE 754 binary64 numbers. A
  float is modelled by the rational it denotes, and every arithmetic operation of the
  source by the exact operation followed by rounding to the nearest number with a 53-bit
  significand, ties to even. The range of the exponent is not modelled (no overflow, no
  subnormal numbers): the durations of the wrapper lie between a quarter of a second and a
  few hundred seconds.

  \<open>round_even\<close> rounds a rational to the nearest integer, a tie to the even one.
\<close>

definition round_even :: "rat \<Rightarrow> int" where
  "round_even q =
     (let f = \<lfloor>q\<rfloor>; d = q - of_int f
      in if d < 1 / 2 then f else if 1 / 2 < d then f + 1 else if even f then f else f + 1)"

text \<open>
  \<open>exponent x\<close> is the \<open>e\<close> with \<open>2 powi e \<le> x < 2 powi (e + 1)\<close>, for a positive \<open>x\<close>:
  found by halving while \<open>x\<close> is at least 2, or by doubling while it is below 1.
\<close>

function expo_dn :: "rat \<Rightarrow> int" where
  "expo_dn x = (if 2 \<le> x then expo_dn (x / 2) + 1 else 0)"
  by pat_completeness auto
termination
proof (relation "measure (\<lambda>x. nat \<lfloor>x\<rfloor>)", goal_cases)
  case 1
  show ?case by simp
next
  case (2 x)
  then have "x / 2 \<le> x - 1" by simp
  then have "\<lfloor>x / 2\<rfloor> \<le> \<lfloor>x - 1\<rfloor>" by (rule floor_mono)
  moreover from 2 have "0 < \<lfloor>x\<rfloor>" by simp
  ultimately show ?case by simp
qed

function expo_up :: "rat \<Rightarrow> int" where
  "expo_up x = (if 0 < x \<and> x < 1 then expo_up (2 * x) - 1 else 0)"
  by pat_completeness auto
termination
proof (relation "measure (\<lambda>x. nat \<lfloor>1 / x\<rfloor>)", goal_cases)
  case 1
  show ?case by simp
next
  case (2 x)
  then have pos: "0 < x" and lt: "x < 1" by simp_all
  from pos lt have one: "1 \<le> 1 / x" by simp
  then have "1 / (2 * x) \<le> 1 / x - 1 / 2" using pos by (simp add: field_simps)
  have "1 / (2 * x) = (1 / x) / 2" by simp
  have "\<lfloor>1 / (2 * x)\<rfloor> < \<lfloor>1 / x\<rfloor>"
  proof -
    have "(1 / x) / 2 < of_int \<lfloor>1 / x\<rfloor>"
    proof -
      have "1 / x < of_int \<lfloor>1 / x\<rfloor> + 1" by linarith
      moreover have "(1::rat) \<le> of_int \<lfloor>1 / x\<rfloor>" using one by (simp add: le_floor_iff)
      ultimately have "1 / x < 2 * of_int \<lfloor>1 / x\<rfloor>" by linarith
      then show ?thesis by simp
    qed
    then show ?thesis by (simp add: floor_less_iff)
  qed
  moreover have "0 < \<lfloor>1 / x\<rfloor>" using one by (simp add: le_floor_iff)
  ultimately show ?case by simp
qed

declare expo_dn.simps [simp del] expo_up.simps [simp del]

definition exponent :: "rat \<Rightarrow> int" where
  "exponent x = (if x < 1 then expo_up x else expo_dn x)"


text \<open>
  \<open>fl64 x\<close> is the binary64 number nearest to \<open>x\<close>: \<open>x\<close> is scaled so that its integer part
  has 53 bits, rounded, and scaled back.
\<close>

definition fl64 :: "rat \<Rightarrow> rat" where
  "fl64 x =
     (if x = 0 then 0
      else of_int (round_even (x * 2 powi (52 - exponent \<bar>x\<bar>))) * 2 powi (exponent \<bar>x\<bar> - 52))"

subsection \<open>The retry wrapper \<^verbatim>\<open>retry_http\<close>\<close>

text \<open>
  The wrapped call either returns a value or raises. The only distinction the wrapper
  makes between exceptions is whether they are instances of \<^verbatim>\<open>ConnectionError\<close>
  (caught by the \<^verbatim>\<open>except\<close> clause) or not (propagated).
\<close>

fun is_ConnectionError :: "py_error \<Rightarrow> bool" where
  "is_ConnectionError (ConnectionError m) = True"
| "is_ConnectionError e = False"

text \<open>
  The observable behaviour of one wrapped invocation: what it returned or raised, the
  durations passed to \<^verbatim>\<open>time.sleep\<close> in order, and how many times the wrapped
  function was invoked.
\<close>

record 'a retried =
  outcome :: "py_error + 'a"
  slept :: "rat list"
  calls :: nat

text \<open>The constants of the wrapper: 1.5, 0.5 and 0.5 are binary64 numbers, 10 is an integer.\<close>

definition multiplier :: rat where
  "multiplier = 3 / 2"

definition retry_interval :: rat where
  "retry_interval = 1 / 2"

definition randomization_factor :: rat where
  "randomization_factor = 1 / 2"

definition max_sleep_time :: rat where
  "max_sleep_time = 10"

text \<open>
  \<^verbatim>\<open>multiplier ** request_nb * (retry_interval * (random.randint(0, int(2 *
  randomization_factor * 1000)) / 1000. + 1 - randomization_factor))\<close>, where \<open>r\<close> is the
  value drawn by \<^verbatim>\<open>random.randint(0, 1000)\<close>. The operations are rounded in the order in
  which Python evaluates them: the division, the addition, the subtraction, the product
  with \<^verbatim>\<open>retry_interval\<close>, the power, and the outer product. The power of 1.5 is a
  binary64 number up to the exponent 33, so its rounding changes nothing on any run that
  the cap allows.
\<close>

definition next_retry_sleep :: "nat \<Rightarrow> nat \<Rightarrow> rat" where
  "next_retry_sleep request_nb r =
     fl64 (fl64 (multiplier ^ request_nb) *
           fl64 (retry_interval *
                 fl64 (fl64 (fl64 (of_nat r / 1000) + 1) - randomization_factor)))"

text \<open>
  The \<^verbatim>\<open>while\<close> loop of \<^verbatim>\<open>_retry_http\<close>. \<open>call n\<close> is what the \<open>n\<close>-th invocation of
  the wrapped function does (counting from 0) and \<open>draw n\<close> is the \<open>n\<close>-th value drawn from
  \<^verbatim>\<open>random.randint\<close>; the loop invokes and draws once per iteration, so both are
  indexed by \<^verbatim>\<open>request_nb\<close>. The arguments after \<open>draw\<close> are the loop's variables
  \<^verbatim>\<open>last_exception\<close>, \<^verbatim>\<open>total_sleep_time\<close>, \<^verbatim>\<open>request_nb\<close>, followed by the
  sleeps performed so far. \<^verbatim>\<open>total_sleep_time += next_retry_sleep\<close> is a rounded
  addition. That the loop ends is a property of the rounded total, proved below; a run
  that does not end has the value \<open>None\<close>.
\<close>

partial_function (option) retry_loop ::
  "(nat \<Rightarrow> py_error + 'a) \<Rightarrow> (nat \<Rightarrow> nat) \<Rightarrow> py_error option \<Rightarrow> rat \<Rightarrow> nat \<Rightarrow> rat list
     \<Rightarrow> 'a retried option" where
  "retry_loop call draw last_exception total_sleep_time request_nb sl =
     (if total_sleep_time < max_sleep_time then
        (case call request_nb of
           Inr v \<Rightarrow> Some \<lparr>outcome = Inr v, slept = sl, calls = request_nb + 1\<rparr>
         | Inl exc \<Rightarrow>
             if is_ConnectionError exc then
               retry_loop call draw (Some exc)
                 (fl64 (total_sleep_time + next_retry_sleep request_nb (draw request_nb)))
                 (request_nb + 1)
                 (sl @ [next_retry_sleep request_nb (draw request_nb)])
             else Some \<lparr>outcome = Inl exc, slept = sl, calls = request_nb + 1\<rparr>)
      else
        (case last_exception of
           None \<Rightarrow>
             Some \<lparr>outcome = Inl (TypeError ''exceptions must derive from BaseException''),
                   slept = sl, calls = request_nb\<rparr>
         | Some exc \<Rightarrow> Some \<lparr>outcome = Inl exc, slept = sl, calls = request_nb\<rparr>))"

declare retry_loop.simps [code]

definition retry_http :: "(nat \<Rightarrow> py_error + 'a) \<Rightarrow> (nat \<Rightarrow> nat) \<Rightarrow> 'a retried option" where
  "retry_http call draw = retry_loop call draw None 0 0 []"

text \<open>
  Vocabulary for the properties of the wrapper. \<open>backoff draw n\<close> is the list of the first
  \<open>n\<close> sleeps, and \<open>tracked sl\<close> is the value of \<^verbatim>\<open>total_sleep_time\<close> after the sleeps
  \<open>sl\<close>: their sum as the loop computes it, rounded after each addition. A run \<open>gave_up\<close>
  when it left through the final \<^verbatim>\<open>raise\<close>; it \<open>passed_on\<close> when it left from inside the
  loop, with what the last invocation returned or with an exception that the
  \<^verbatim>\<open>except\<close> clause does not catch.
\<close>

definition backoff :: "(nat \<Rightarrow> nat) \<Rightarrow> nat \<Rightarrow> rat list" where
  "backoff draw n = map (\<lambda>i. next_retry_sleep i (draw i)) [0..<n]"

definition tracked :: "rat list \<Rightarrow> rat" where
  "tracked sl = foldl (\<lambda>t s. fl64 (t + s)) 0 sl"

definition gave_up :: "(nat \<Rightarrow> py_error + 'a) \<Rightarrow> 'a retried \<Rightarrow> bool" where
  "gave_up call r \<longleftrightarrow>
     (\<exists>e. outcome r = Inl e \<and> is_ConnectionError e \<and> slept r \<noteq> [] \<and>
        call (length (slept r) - 1) = Inl e \<and> calls r = length (slept r) \<and>
        max_sleep_time \<le> tracked (slept r))"

definition passed_on :: "(nat \<Rightarrow> py_error + 'a) \<Rightarrow> 'a retried \<Rightarrow> bool" where
  "passed_on call r \<longleftrightarrow>
     outcome r = call (length (slept r)) \<and> calls r = length (slept r) + 1 \<and>
     tracked (slept r) < max_sleep_time \<and>
     (case outcome r of Inr v \<Rightarrow> True | Inl e \<Rightarrow> \<not> is_ConnectionError e)"

text \<open>
  Three wrapped actions for the examples: an upstream that always refuses the connection,
  one that refuses twice and then answers, and one that refuses once and then fails
  otherwise. Two sequences of draws: every draw 500 (a jitter factor of one), and the draws
  942, 880, 561, 237, 414, 420, whose six sleeps add up to 10 seconds in exact arithmetic
  and to 9.999999999999998 seconds as the loop adds them.
\<close>

definition always_refused :: "nat \<Rightarrow> py_error + int" where
  "always_refused n = Inl (ConnectionError ''refused'')"




definition draws_to_ten :: "nat \<Rightarrow> nat" where
  "draws_to_ten n = (if n < 6 then [942, 880, 561, 237, 414, 420] ! n else 0)"

subsection \<open>The configuration and its placeholders\<close>

text \<open>
  The parsed configuration file \<^verbatim>\<open>self.yaml_file\<close>, for a well-typed configuration.
  An optional key is an \<open>option\<close>; \<^verbatim>\<open>info\<close> and \<^verbatim>\<open>basePath\<close> are only read with
  \<^verbatim>\<open>.get\<close>, so an absent one is \<open>JNull\<close>.
\<close>

record yaml_file =
  y_args :: "string option"
  y_info :: json
  y_basePath :: json
  y_apis :: "(string \<times> string) list option"
  y_exclude_paths :: "string list option"
  y_exclude_fields :: "(string \<times> string list) list option"

text \<open>The loop of \<^verbatim>\<open>get_args\<close> that binds each placeholder name to a constructor argument.\<close>

fun bind_args ::
  "string list \<Rightarrow> string list \<Rightarrow> nat \<Rightarrow> (string \<times> string) list
     \<Rightarrow> py_error + (string \<times> string) list" where
  "bind_args [] swagger_args index args_dict = Inr args_dict"
| "bind_args (arg_name # args_name) swagger_args index args_dict =
     (case py_index swagger_args index of
        Inl e \<Rightarrow> Inl e
      | Inr a \<Rightarrow> bind_args args_name swagger_args (index + 1) (AList.update arg_name a args_dict))"

definition get_args :: "yaml_file \<Rightarrow> string list \<Rightarrow> py_error + (string \<times> string) list" where
  "get_args y swagger_args =
     (case y_args y of
        None \<Rightarrow> Inr []
      | Some a \<Rightarrow>
          bind_args (map (\<lambda>i. py_replace i [CHR '' ''] []) (py_split a (CHR '',''))) swagger_args 0 [])"

text \<open>
  The loop of \<^verbatim>\<open>parse_value\<close> over \<^verbatim>\<open>self.args_dict.keys()\<close>: each key in turn is
  replaced in the current value by \<^verbatim>\<open>self.args_dict[key]\<close>.
\<close>

fun parse_text :: "(string \<times> string) list \<Rightarrow> string \<Rightarrow> string" where
  "parse_text [] s = s"
| "parse_text ((key, arg) # args_dict) s = parse_text args_dict (py_replace s key arg)"


subsection \<open>Fetching the upstream specifications\<close>








text \<open>
  For the examples: the configuration of the test suite, its placeholder bindings, a fresh
  aggregator, a network whose first request fails to connect while every later one would
  be answered, a network on which every request fails to connect, and the configuration
  with the first upstream alone.
\<close>

definition test_yaml :: yaml_file where
  "test_yaml =
     \<lparr>y_args = Some ''identifications_url, ingestion_url'',
      y_info = JDict [(''version'', JStr ''0.1''), (''title'', JStr ''API Gateway'')],
      y_basePath = JStr ''/v1'',
      y_apis = Some [(''identifications'', ''http://identifications_url/v1''),
                     (''ingestion'', ''http://ingestion_url/v1'')],
      y_exclude_paths = Some [''POST /identifications/{id}/history/'',
                              ''GET /identifications/'',
                              ''DELETE /ingestions/{id}/resources'',
                              ''PUT /ingestions/{id}'',
                              ''GET /ingestions'',
                              ''PUT /identifications/{id}/source/audio_url''],
      y_exclude_fields = Some [(''identificationsTest'', [''id'']),
                               (''identificationsSubTest'', [''id''])]\<rparr>"






subsection \<open>Merging the upstream specifications\<close>

text \<open>
  The aggregated document \<^verbatim>\<open>base_swagger\<close> of \<^verbatim>\<open>generate_swagger_json\<close>: its
  \<^verbatim>\<open>'swagger'\<close> key is the constant \<^verbatim>\<open>'2.0'\<close>; the other four keys are the fields.
\<close>

record swagger_doc =
  info :: json
  basePath :: json
  definitions :: "(string \<times> json) list"
  paths :: "(string \<times> json) list"









definition initial_swagger :: "yaml_file \<Rightarrow> swagger_doc" where
  "initial_swagger y = \<lparr>info = y_info y, basePath = y_basePath y, definitions = [], paths = []\<rparr>"



subsection \<open>Excluding paths\<close>

text \<open>
  The dictionary comprehension of \<^verbatim>\<open>exclude_paths\<close>:
  \<^verbatim>\<open>{p.split(' ')[1]: [p.split(' ')[0].lower()] for p in ...}\<close>. Each rule stores a
  one-element list under its path, so a later rule for a path replaces an earlier one.
\<close>

fun path_exclude_of ::
  "string list \<Rightarrow> (string \<times> string list) list \<Rightarrow> py_error + (string \<times> string list) list" where
  "path_exclude_of [] path_exclude = Inr path_exclude"
| "path_exclude_of (p # ps) path_exclude =
     (case py_index (py_split p (CHR '' '')) 1 of
        Inl e \<Rightarrow> Inl e
      | Inr path \<Rightarrow>
          (case py_index (py_split p (CHR '' '')) 0 of
             Inl e \<Rightarrow> Inl e
           | Inr meth \<Rightarrow> path_exclude_of ps (AList.update path [py_lower meth] path_exclude)))"

text \<open>\<^verbatim>\<open>del swagger_filtered['paths'][path][action]\<close>.\<close>

definition del_action :: "string \<Rightarrow> string \<Rightarrow> (string \<times> json) list \<Rightarrow> py_error + (string \<times> json) list" where
  "del_action path action filtered =
     (case map_of filtered path of
        None \<Rightarrow> Inl (KeyError path)
      | Some (JDict kvs) \<Rightarrow>
          if action \<in> set (map fst kvs)
          then Inr (AList.update path (JDict (AList.delete action kvs)) filtered)
          else Inl (KeyError action)
      | Some other \<Rightarrow> Inl (TypeError ''object does not support item deletion''))"

text \<open>
  The two nested loops of \<^verbatim>\<open>exclude_paths\<close>: they read the paths of the argument and
  delete from the copy \<open>filtered\<close>.
\<close>

definition exclude_in_path ::
  "(string \<times> string list) list \<Rightarrow> string \<times> json \<Rightarrow> (string \<times> json) list
     \<Rightarrow> py_error + (string \<times> json) list" where
  "exclude_in_path path_exclude item filtered =
     (case item of (path, path_spec) \<Rightarrow>
        (case map_of path_exclude path of
           None \<Rightarrow> Inr filtered
         | Some excluded \<Rightarrow>
             (case py_items path_spec of
                Inl e \<Rightarrow> Inl e
              | Inr actions \<Rightarrow>
                  for_each (\<lambda>act f. if fst act \<in> set excluded then del_action path (fst act) f else Inr f)
                    actions filtered)))"

definition exclude_paths :: "yaml_file \<Rightarrow> swagger_doc \<Rightarrow> py_error + swagger_doc" where
  "exclude_paths y swagger =
     (case path_exclude_of (case y_exclude_paths y of None \<Rightarrow> [] | Some rules \<Rightarrow> rules) [] of
        Inl e \<Rightarrow> Inl e
      | Inr path_exclude \<Rightarrow>
          (case for_each (exclude_in_path path_exclude) (paths swagger) (paths swagger) of
             Inl e \<Rightarrow> Inl e
           | Inr filtered \<Rightarrow> Inr (swagger\<lparr>paths := filtered\<rparr>)))"

subsection \<open>Excluding fields from the merged definitions\<close>

text \<open>\<^verbatim>\<open>xs.remove(key)\<close>: only a list has the method; the caller has tested membership.\<close>

definition py_remove :: "json \<Rightarrow> string \<Rightarrow> py_error + json" where
  "py_remove xs key =
     (case xs of
        JList ys \<Rightarrow>
          if JStr key \<in> set ys then Inr (JList (remove1 (JStr key) ys))
          else Inl (ValueError ''list.remove(x): x not in list'')
      | _ \<Rightarrow> Inl (AttributeError ''remove''))"

text \<open>\<^verbatim>\<open>del d[key]\<close> on a value.\<close>

definition py_delitem :: "json \<Rightarrow> string \<Rightarrow> py_error + json" where
  "py_delitem d key =
     (case d of
        JDict kvs \<Rightarrow>
          if key \<in> set (map fst kvs) then Inr (JDict (AList.delete key kvs))
          else Inl (KeyError key)
      | _ \<Rightarrow> Inl (TypeError ''object does not support item deletion''))"

text \<open>
  The mutation of the object stored under \<open>field\<close> of a dictionary, written back: the
  source mutates \<^verbatim>\<open>definition_spec['required']\<close> and
  \<^verbatim>\<open>definition_spec['properties']\<close> in place.
\<close>

definition set_field :: "json \<Rightarrow> string \<Rightarrow> json \<Rightarrow> json" where
  "set_field d field v =
     (case d of
        JDict kvs \<Rightarrow> JDict (AList.update field v kvs)
      | _ \<Rightarrow> d)"

text \<open>
  The body of the inner loop of lines 249 to 253 of \<^verbatim>\<open>generate_swagger_json\<close>, for one
  \<open>key\<close> of the exclusion list of a definition:
  \<^verbatim>\<open>
  if key in definition_spec['required']:
      definition_spec['required'].remove(key)
  if key in definition_spec['properties']:
      del definition_spec['properties'][key]
  \<close>
\<close>

definition exclude_field :: "string \<Rightarrow> json \<Rightarrow> py_error + json" where
  "exclude_field key definition_spec =
     (case py_getitem definition_spec ''required'' of
        Inl e \<Rightarrow> Inl e
      | Inr required \<Rightarrow>
          (case py_contains key required of
             Inl e \<Rightarrow> Inl e
           | Inr in_required \<Rightarrow>
               (case (if in_required
                      then (case py_remove required key of
                              Inl e \<Rightarrow> Inl e
                            | Inr required' \<Rightarrow> Inr (set_field definition_spec ''required'' required'))
                      else Inr definition_spec) of
                  Inl e \<Rightarrow> Inl e
                | Inr spec1 \<Rightarrow>
                    (case py_getitem spec1 ''properties'' of
                       Inl e \<Rightarrow> Inl e
                     | Inr properties \<Rightarrow>
                         (case py_contains key properties of
                            Inl e \<Rightarrow> Inl e
                          | Inr in_properties \<Rightarrow>
                              if in_properties
                              then (case py_delitem properties key of
                                      Inl e \<Rightarrow> Inl e
                                    | Inr properties' \<Rightarrow>
                                        Inr (set_field spec1 ''properties'' properties'))
                              else Inr spec1)))))"

text \<open>
  The loop of lines 247 to 253 over \<^verbatim>\<open>base_swagger['definitions'].items()\<close>; the
  definitions keep their names and their order.
\<close>

fun exclude_fields_loop ::
  "(string \<times> string list) list \<Rightarrow> (string \<times> json) list \<Rightarrow> py_error + (string \<times> json) list" where
  "exclude_fields_loop exclude_fields [] = Inr []"
| "exclude_fields_loop exclude_fields ((definition_name, definition_spec) # rest) =
     (case (case map_of exclude_fields definition_name of
              None \<Rightarrow> Inr definition_spec
            | Some keys \<Rightarrow> for_each exclude_field keys definition_spec) of
        Inl e \<Rightarrow> Inl e
      | Inr definition_spec' \<Rightarrow>
          (case exclude_fields_loop exclude_fields rest of
             Inl e \<Rightarrow> Inl e
           | Inr rest' \<Rightarrow> Inr ((definition_name, definition_spec') # rest')))"

text \<open>\<^verbatim>\<open>self.yaml_file.get('exclude_fields', {})\<close>.\<close>

definition exclude_fields_of :: "yaml_file \<Rightarrow> (string \<times> string list) list" where
  "exclude_fields_of y = (case y_exclude_fields y of None \<Rightarrow> [] | Some ef \<Rightarrow> ef)"

definition remove_exclude_fields :: "yaml_file \<Rightarrow> swagger_doc \<Rightarrow> py_error + swagger_doc" where
  "remove_exclude_fields y base_swagger =
     (case exclude_fields_loop (exclude_fields_of y) (definitions base_swagger) of
        Inl e \<Rightarrow> Inl e
      | Inr defs \<Rightarrow> Inr (base_swagger\<lparr>definitions := defs\<rparr>))"

subsection \<open>Redacting a response: \<^verbatim>\<open>filter_definition\<close>\<close>

text \<open>\<^verbatim>\<open>for key in keys_to_remove: del doc[key]\<close> on the items of a dictionary.\<close>

fun remove_keys :: "string list \<Rightarrow> (string \<times> json) list \<Rightarrow> py_error + (string \<times> json) list" where
  "remove_keys [] doc = Inr doc"
| "remove_keys (key # keys_to_remove) doc =
     (if key \<in> set (map fst doc) then remove_keys keys_to_remove (AList.delete key doc)
      else Inl (KeyError key))"

text \<open>A loop that rebuilds a list element by element; the first exception ends it.\<close>

fun map_each :: "('a \<Rightarrow> py_error + 'b) \<Rightarrow> 'a list \<Rightarrow> py_error + 'b list" where
  "map_each f [] = Inr []"
| "map_each f (x # xs) =
     (case f x of
        Inl e \<Rightarrow> Inl e
      | Inr y \<Rightarrow> (case map_each f xs of Inl e \<Rightarrow> Inl e | Inr ys \<Rightarrow> Inr (y # ys)))"

lemma map_each_cong [fundef_cong]:
  "xs = ys \<Longrightarrow> (\<And>x. x \<in> set ys \<Longrightarrow> f x = g x) \<Longrightarrow> map_each f xs = map_each g ys"
  by (induction ys arbitrary: xs) (auto split: sum.splits)

lemma remove_keys_subset: "remove_keys ks doc = Inr doc1 \<Longrightarrow> set doc1 \<subseteq> set doc"
proof (induction ks arbitrary: doc)
  case Nil
  then show ?case by simp
next
  case (Cons k ks)
  from Cons.prems have "remove_keys ks (AList.delete k doc) = Inr doc1"
    by (simp split: if_splits)
  then have "set doc1 \<subseteq> set (AList.delete k doc)"
    by (rule Cons.IH)
  then show ?case
    by (auto simp: AList.delete_eq)
qed

lemma size_dict_item: "kv \<in> set doc \<Longrightarrow> size (snd kv) < size (JDict doc)"
  by (induction doc) auto

lemma size_list_item: "x \<in> set doc \<Longrightarrow> size x < size (JList doc)"
  by (induction doc) auto

text \<open>
  \<^verbatim>\<open>filter_definition\<close>. The schema resolver
  \<^verbatim>\<open>self.swagger_parser.get_dict_definition\<close> is the parameter \<open>get_dict_definition\<close>:
  the name of a definition, or \<open>None\<close> when no definition matches the dictionary.
  \<open>exclude_fields\<close> is \<^verbatim>\<open>self.yaml_file.get('exclude_fields', {})\<close>.
\<close>

function (sequential) filter_definition ::
  "(string \<times> string list) list \<Rightarrow> (json \<Rightarrow> string option) \<Rightarrow> json \<Rightarrow> py_error + json" where
  "filter_definition exclude_fields get_dict_definition (JDict doc) =
     (let doc_definition = get_dict_definition (JDict doc);
          keys_to_remove =
            (case doc_definition of
               None \<Rightarrow> []
             | Some name \<Rightarrow> (case map_of exclude_fields name of None \<Rightarrow> [] | Some keys \<Rightarrow> keys))
      in case remove_keys keys_to_remove doc of
           Inl e \<Rightarrow> Inl e
         | Inr doc1 \<Rightarrow>
             (case map_each
                     (\<lambda>kv. case filter_definition exclude_fields get_dict_definition (snd kv) of
                             Inl e \<Rightarrow> Inl e
                           | Inr v \<Rightarrow> Inr (fst kv, v))
                     doc1 of
                Inl e \<Rightarrow> Inl e
              | Inr doc2 \<Rightarrow> Inr (JDict doc2)))"
| "filter_definition exclude_fields get_dict_definition (JList doc) =
     (case map_each (filter_definition exclude_fields get_dict_definition) doc of
        Inl e \<Rightarrow> Inl e
      | Inr doc' \<Rightarrow> Inr (JList doc'))"
| "filter_definition exclude_fields get_dict_definition doc = Inr doc"
  by pat_completeness auto
termination
proof (relation "measure (\<lambda>(ef, g, doc). size doc)", goal_cases)
  case 1
  show ?case by simp
next
  case (2 ef g doc dd ks doc1 kv)
  then have "kv \<in> set doc"
    using remove_keys_subset by blast
  then show ?case
    using size_dict_item [of kv doc] by simp
next
  case (3 ef g doc x)
  then show ?case
    using size_list_item [of x doc] by simp
qed

subsection \<open>Dispatching a request: the generated function \<^verbatim>\<open>func\<close>\<close>

text \<open>
  \<^verbatim>\<open>re.findall(re.compile('{(.+)}'), url)\<close>. The pattern is an opening brace, one or
  more characters other than a newline, matched greedily, and a closing brace; the result
  lists the text between the braces of each match, and the search resumes after a match.
  \<open>last_close line\<close> is the position of the last closing brace of \<open>line\<close> that leaves at
  least one character before it, where \<open>line\<close> is what follows the opening brace up to the
  next newline.
\<close>

definition last_close :: "string \<Rightarrow> nat option" where
  "last_close line =
     (case filter (\<lambda>j. line ! j = CHR ''}'') (rev [1..<length line]) of
        [] \<Rightarrow> None
      | j # _ \<Rightarrow> Some j)"

fun findall_braces :: "string \<Rightarrow> string list" where
  "findall_braces [] = []"
| "findall_braces (c # cs) =
     (if c = CHR ''{'' then
        (case last_close (takeWhile (\<lambda>x. x \<noteq> CHR 0x0A) cs) of
           None \<Rightarrow> findall_braces cs
         | Some j \<Rightarrow> take j cs # findall_braces (drop (Suc j) cs))
      else findall_braces cs)"

text \<open>
  Lines 307 to 312: the URL is the upstream's base URL, the path template, a question mark
  and the query string; then, for every text that \<^verbatim>\<open>re.findall\<close> found in this URL and
  every keyword argument of the same name, \<^verbatim>\<open>url.replace('{name}', str(value))\<close>.
  The query string and the values of the keyword arguments are strings here.
\<close>

definition build_url :: "string \<Rightarrow> string \<Rightarrow> string \<Rightarrow> (string \<times> string) list \<Rightarrow> string" where
  "build_url uri path query_string kwargs =
     (let url0 = uri @ path @ ''?'' @ query_string
      in fold (\<lambda>path_param u.
                 fold (\<lambda>kv u'. if fst kv = path_param
                                then py_replace u' (''{'' @ fst kv @ ''}'') (snd kv) else u')
                   kwargs u)
           (findall_braces url0) url0)"

text \<open>\<^verbatim>\<open>dict(pairs)\<close>: of two pairs with one key the later gives the value.\<close>

definition py_dict :: "(string \<times> string) list \<Rightarrow> (string \<times> string) list" where
  "py_dict pairs = fold (\<lambda>kv d. AList.update (fst kv) (snd kv) d) pairs []"

text \<open>
  Lines 316 to 326: the headers sent upstream, from the pairs of
  \<^verbatim>\<open>flask.request.headers\<close> (names as the framework spells them, such as
  \<^verbatim>\<open>Content-Type\<close>). The comprehension keeps the pairs whose value is true, that is a
  non-empty string.
\<close>

definition content_type :: "(string \<times> string) list \<Rightarrow> string" where
  "content_type request_headers =
     (case map_of request_headers ''Content-Type'' of None \<Rightarrow> [] | Some v \<Rightarrow> v)"

definition upstream_headers :: "(string \<times> string) list \<Rightarrow> (string \<times> string) list" where
  "upstream_headers request_headers =
     (let headers = filter (\<lambda>kv. snd kv \<noteq> []) (py_dict request_headers)
      in if \<not> prefix ''multipart/form-data'' (content_type request_headers) then headers
         else (case map_of headers ''Content-Length'' of
                 None \<Rightarrow> headers
               | Some v \<Rightarrow>
                   AList.delete ''Content-Length'' (AList.update ''X-Content-Length'' v headers)))"

text \<open>
  The call that \<^verbatim>\<open>func\<close> issues: the method named by the binding, the URL, the headers,
  and whether the body is the request's stream (multipart) or its buffered data.
\<close>

record upstream_call =
  call_method :: string
  call_url :: string
  call_headers :: "(string \<times> string) list"
  call_streams :: bool

definition upstream_request ::
  "string \<Rightarrow> string \<Rightarrow> string \<Rightarrow> string \<Rightarrow> (string \<times> string) list \<Rightarrow> (string \<times> string) list
     \<Rightarrow> upstream_call" where
  "upstream_request action uri path query_string kwargs request_headers =
     \<lparr>call_method = action,
      call_url = build_url uri path query_string kwargs,
      call_headers = upstream_headers request_headers,
      call_streams = prefix ''multipart/form-data'' (content_type request_headers)\<rparr>"

subsection \<open>Inputs of the examples\<close>

text \<open>
  For \<^verbatim>\<open>exclude_paths\<close>: the document of the test suite, and a configuration with two
  rules for one path applied to a document that has both methods on that path.
\<close>

definition test_paths :: swagger_doc where
  "test_paths =
     (initial_swagger test_yaml)\<lparr>paths :=
       [(''/identifications/{id}/history/'', JDict [(''get'', JDict []), (''post'', JDict [])]),
        (''path'', JDict [(''get'', JDict []), (''post'', JDict [])])]\<rparr>"

definition two_rules :: yaml_file where
  "two_rules = test_yaml\<lparr>y_exclude_paths := Some [''POST /a'', ''GET /a'']\<rparr>"

definition path_a :: swagger_doc where
  "path_a =
     (initial_swagger test_yaml)\<lparr>paths :=
       [(''/a'', JDict [(''get'', JDict []), (''post'', JDict [])])]\<rparr>"

text \<open>
  For \<^verbatim>\<open>filter_definition\<close>: the exclusion rules and the response of the test suite,
  with a resolver that names the outer and the nested schema as the test's mock does, and
  a response of the outer schema that has no \<^verbatim>\<open>id\<close>.
\<close>

definition test_exclude_fields :: "(string \<times> string list) list" where
  "test_exclude_fields = [(''identificationsTest'', [''id'']), (''identificationsSubTest'', [''id''])]"

definition test_resolver :: "json \<Rightarrow> string option" where
  "test_resolver doc =
     (case py_contains ''sub'' doc of
        Inr True \<Rightarrow> Some ''identificationsTest''
      | _ \<Rightarrow> Some ''identificationsSubTest'')"

definition test_doc :: json where
  "test_doc =
     JList [JDict [(''id'', JStr ''123''), (''test'', JStr ''456''),
                   (''sub'', JDict [(''id'', JStr ''789''), (''test'', JStr ''147'')])]]"

definition doc_without_id :: json where
  "doc_without_id = JDict [(''test'', JStr ''456''), (''sub'', JDict [(''id'', JStr ''789'')])]"

text \<open>
  For the headers: \<open>inbound request_headers\<close> maps a name to the non-empty value that the
  request gives it (of two pairs with one name the later counts, as in
  \<^verbatim>\<open>dict(flask.request.headers)\<close>); a multipart request; and a request with an
  \<^verbatim>\<open>Accept\<close> header whose value is empty.
\<close>

definition inbound :: "(string \<times> string) list \<Rightarrow> string \<Rightarrow> string option" where
  "inbound request_headers name =
     (case map_of (rev request_headers) name of
        None \<Rightarrow> None
      | Some v \<Rightarrow> if v \<noteq> [] then Some v else None)"

definition multipart_headers :: "(string \<times> string) list" where
  "multipart_headers =
     [(''Content-Type'', ''multipart/form-data; boundary=x''), (''Content-Length'', ''42''),
      (''Host'', ''trax'')]"

definition plain_headers :: "(string \<times> string) list" where
  "plain_headers = [(''Content-Type'', ''application/json''), (''Accept'', []), (''Host'', ''trax'')]"

text \<open>
  For the exclusion of fields: a definition is \<open>well_formed\<close> when it is an object with
  a \<^verbatim>\<open>'required'\<close> list and a \<^verbatim>\<open>'properties'\<close> dictionary, and it \<open>has_both\<close> when it is
  an object with the two keys; a document whose listed definition is well formed, and one
  whose listed definition has no \<^verbatim>\<open>'properties'\<close>.
\<close>

definition well_formed :: "json \<Rightarrow> bool" where
  "well_formed definition_spec \<longleftrightarrow>
     (\<exists>d r p. definition_spec = JDict d \<and> map_of d ''required'' = Some (JList r) \<and>
        map_of d ''properties'' = Some (JDict p))"

definition has_both :: "json \<Rightarrow> bool" where
  "has_both definition_spec \<longleftrightarrow>
     (\<exists>d r p. definition_spec = JDict d \<and> map_of d ''required'' = Some r \<and>
        map_of d ''properties'' = Some p)"

definition complete_definition :: swagger_doc where
  "complete_definition =
     (initial_swagger test_yaml)\<lparr>definitions :=
       [(''identificationsTest'',
         JDict [(''required'', JList [JStr ''id'', JStr ''name'']),
                (''properties'', JDict [(''id'', JDict []), (''name'', JDict [])])])]\<rparr>"

definition no_properties :: swagger_doc where
  "no_properties =
     (initial_swagger test_yaml)\<lparr>definitions :=
       [(''identificationsTest'', JDict [(''required'', JList [JStr ''id'', JStr ''name''])])]\<rparr>"

section \<open>Properties\<close>

subsection \<open>Binary floating point\<close>

lemma round_even_of_int: "round_even (of_int n) = n"
  by (simp add: round_even_def)

lemma round_even_cases:
  "round_even q = \<lfloor>q\<rfloor> \<and> q - of_int \<lfloor>q\<rfloor> \<le> 1 / 2 \<or>
   round_even q = \<lfloor>q\<rfloor> + 1 \<and> 1 / 2 \<le> q - of_int \<lfloor>q\<rfloor>"
  by (auto simp: round_even_def Let_def)

lemma round_even_mono: "x \<le> y \<Longrightarrow> round_even x \<le> round_even y"
proof -
  assume le: "x \<le> y"
  then have fl: "\<lfloor>x\<rfloor> \<le> \<lfloor>y\<rfloor>" by (rule floor_mono)
  show ?thesis
  proof (cases "\<lfloor>x\<rfloor> = \<lfloor>y\<rfloor>")
    case True
    with le show ?thesis
      by (auto simp: round_even_def Let_def)
  next
    case False
    with fl have "\<lfloor>x\<rfloor> + 1 \<le> \<lfloor>y\<rfloor>" by simp
    moreover have "round_even x \<le> \<lfloor>x\<rfloor> + 1" using round_even_cases [of x] by auto
    moreover have "\<lfloor>y\<rfloor> \<le> round_even y" using round_even_cases [of y] by auto
    ultimately show ?thesis by simp
  qed
qed

lemma round_even_lower: "of_int n \<le> q \<Longrightarrow> n \<le> round_even q"
  using round_even_mono [of "of_int n" q] by (simp add: round_even_of_int)

lemma round_even_upper: "q \<le> of_int n \<Longrightarrow> round_even q \<le> n"
  using round_even_mono [of q "of_int n"] by (simp add: round_even_of_int)

lemma round_even_error: "q - 1 / 2 \<le> of_int (round_even q)"
proof -
  have "of_int \<lfloor>q\<rfloor> \<le> q" "q < of_int \<lfloor>q\<rfloor> + 1" by linarith+
  with round_even_cases [of q] show ?thesis
    by auto
qed

lemma expo_dn_bounds: "1 \<le> x \<Longrightarrow> 2 powi expo_dn x \<le> x \<and> x < 2 powi (expo_dn x + 1)"
proof (induction x rule: expo_dn.induct)
  case (1 x)
  show ?case
  proof (cases "2 \<le> x")
    case True
    then have "1 \<le> x / 2" by simp
    from "1.IH" [OF True this]
    have a: "2 powi expo_dn (x / 2) \<le> x / 2" and b: "x / 2 < 2 powi (expo_dn (x / 2) + 1)"
      by simp_all
    have e: "expo_dn x = expo_dn (x / 2) + 1"
      using True by (subst expo_dn.simps) simp
    have "(2::rat) powi (expo_dn (x / 2) + 1) = 2 * 2 powi expo_dn (x / 2)"
      by (simp add: power_int_add)
    moreover have "(2::rat) powi (expo_dn (x / 2) + 1 + 1) = 2 * 2 powi (expo_dn (x / 2) + 1)"
      by (simp add: power_int_add)
    ultimately show ?thesis
      using a b by (simp add: e)
  next
    case False
    then have "expo_dn x = 0"
      by (subst expo_dn.simps) simp
    with False "1.prems" show ?thesis by simp
  qed
qed

lemma expo_up_bounds: "0 < x \<Longrightarrow> x \<le> 1 \<Longrightarrow> 2 powi expo_up x \<le> x \<and> x < 2 powi (expo_up x + 1)"
proof (induction x rule: expo_up.induct)
  case (1 x)
  show ?case
  proof (cases "x < 1")
    case True
    with "1.prems" have c: "0 < x \<and> x < 1" by simp
    have e: "expo_up x = expo_up (2 * x) - 1"
      using c by (subst expo_up.simps) simp
    show ?thesis
    proof (cases "2 * x \<le> 1")
      case True
      from "1.IH" [OF c _ True] "1.prems"
      have a: "2 powi expo_up (2 * x) \<le> 2 * x" and b: "2 * x < 2 powi (expo_up (2 * x) + 1)"
        by simp_all
      have "(2::rat) powi (expo_up (2 * x) - 1) = 2 powi expo_up (2 * x) / 2"
        by (simp add: power_int_diff)
      moreover have "(2::rat) powi (expo_up (2 * x) + 1) = 2 * 2 powi expo_up (2 * x)"
        by (simp add: power_int_add)
      ultimately show ?thesis
        using a b by (simp add: e)
    next
      case False
      then have "expo_up (2 * x) = 0"
        by (subst expo_up.simps) simp
      with False c show ?thesis
        by (simp add: e)
    qed
  next
    case False
    with "1.prems" have "x = 1" by simp
    then show ?thesis
      by (subst (1 2) expo_up.simps) simp
  qed
qed

lemma exponent_bounds:
  assumes "0 < x"
  shows "2 powi exponent x \<le> x" and "x < 2 powi (exponent x + 1)"
  using assms expo_up_bounds [of x] expo_dn_bounds [of x]
  by (auto simp: exponent_def not_less)

lemma powi_less_imp_less:
  assumes "(2::rat) powi a < 2 powi b"
  shows "a < b"
proof (rule ccontr)
  assume "\<not> a < b"
  then have "b \<le> a" by simp
  then have "(2::rat) powi b \<le> 2 powi a"
    by (rule power_int_increasing) simp
  with assms show False by simp
qed

lemma exponent_unique:
  assumes "2 powi e \<le> x" and "x < 2 powi (e + 1)"
  shows "exponent x = e"
proof -
  have "(0::rat) < 2 powi e" by simp
  with assms(1) have pos: "0 < x" by linarith
  from exponent_bounds [OF pos] assms
  have "(2::rat) powi e < 2 powi (exponent x + 1)" and "(2::rat) powi exponent x < 2 powi (e + 1)"
    by simp_all
  then have "e < exponent x + 1" and "exponent x < e + 1"
    by (auto dest: powi_less_imp_less)
  then show ?thesis by simp
qed

lemma exponent_mono:
  assumes "0 < x" and "x \<le> y"
  shows "exponent x \<le> exponent y"
proof -
  from assms have "0 < y" by simp
  from exponent_bounds(1) [OF assms(1)] exponent_bounds(2) [OF this] assms(2)
  have "(2::rat) powi exponent x < 2 powi (exponent y + 1)" by simp
  then have "exponent x < exponent y + 1" by (rule powi_less_imp_less)
  then show ?thesis by simp
qed

text \<open>mantissa bounds\<close>

lemma fl64_pos_eq:
  "0 < x \<Longrightarrow> fl64 x = of_int (round_even (x * 2 powi (52 - exponent x))) * 2 powi (exponent x - 52)"
  by (simp add: fl64_def)

lemma powi_split: "(2::rat) powi a * 2 powi b = 2 powi (a + b)"
  by (simp add: power_int_add)

lemma mantissa_bounds:
  assumes "0 < x"
  shows "2 ^ 52 \<le> round_even (x * 2 powi (52 - exponent x))"
    and "round_even (x * 2 powi (52 - exponent x)) \<le> 2 ^ 53"
proof -
  let ?e = "exponent x"
  have "2 powi ?e * 2 powi (52 - ?e) \<le> x * 2 powi (52 - ?e)"
    using exponent_bounds(1) [OF assms] by (intro mult_right_mono) simp_all
  then have "2 powi (?e + (52 - ?e)) \<le> x * 2 powi (52 - ?e)"
    by (simp only: powi_split)
  then have "of_int (2 ^ 52) \<le> x * 2 powi (52 - ?e)"
    by simp
  then show "2 ^ 52 \<le> round_even (x * 2 powi (52 - exponent x))"
    by (rule round_even_lower)
  have "x * 2 powi (52 - ?e) \<le> 2 powi (?e + 1) * 2 powi (52 - ?e)"
    using exponent_bounds(2) [OF assms] by (intro mult_right_mono) simp_all
  then have "x * 2 powi (52 - ?e) \<le> 2 powi (?e + 1 + (52 - ?e))"
    by (simp only: powi_split)
  then have "x * 2 powi (52 - ?e) \<le> of_int (2 ^ 53)"
    by simp
  then show "round_even (x * 2 powi (52 - exponent x)) \<le> 2 ^ 53"
    by (rule round_even_upper)
qed

lemma fl64_bounds:
  assumes "0 < x"
  shows "2 powi exponent x \<le> fl64 x" and "fl64 x \<le> 2 powi (exponent x + 1)"
proof -
  let ?e = "exponent x"
  let ?m = "round_even (x * 2 powi (52 - ?e))"
  have "(of_int (2 ^ 52) :: rat) \<le> of_int ?m"
    using mantissa_bounds(1) [OF assms] by (rule of_int_le_iff [THEN iffD2])
  then have "of_int (2 ^ 52) * 2 powi (?e - 52) \<le> of_int ?m * (2::rat) powi (?e - 52)"
    by (rule mult_right_mono) simp
  moreover have "(of_int (2 ^ 52) :: rat) = 2 powi 52"
    by simp
  ultimately have "2 powi 52 * 2 powi (?e - 52) \<le> of_int ?m * (2::rat) powi (?e - 52)"
    by simp
  then have "2 powi (52 + (?e - 52)) \<le> of_int ?m * (2::rat) powi (?e - 52)"
    by (simp only: powi_split)
  then show "2 powi exponent x \<le> fl64 x"
    using assms by (simp add: fl64_pos_eq)
  have "(of_int ?m :: rat) \<le> of_int (2 ^ 53)"
    using mantissa_bounds(2) [OF assms] by (rule of_int_le_iff [THEN iffD2])
  then have "of_int ?m * 2 powi (?e - 52) \<le> of_int (2 ^ 53) * (2::rat) powi (?e - 52)"
    by (rule mult_right_mono) simp
  moreover have "(of_int (2 ^ 53) :: rat) = 2 powi 53"
    by simp
  ultimately have "of_int ?m * (2::rat) powi (?e - 52) \<le> 2 powi 53 * 2 powi (?e - 52)"
    by simp
  then have "of_int ?m * (2::rat) powi (?e - 52) \<le> 2 powi (53 + (?e - 52))"
    by (simp only: powi_split)
  moreover have "53 + (?e - 52) = ?e + 1" by simp
  ultimately show "fl64 x \<le> 2 powi (exponent x + 1)"
    using assms by (simp add: fl64_pos_eq)
qed

lemma fl64_pos: "0 < x \<Longrightarrow> 0 < fl64 x"
proof -
  assume "0 < x"
  from fl64_bounds(1) [OF this] have "2 powi exponent x \<le> fl64 x" .
  moreover have "(0::rat) < 2 powi exponent x" by simp
  ultimately show ?thesis by linarith
qed

lemma fl64_nonneg: "0 \<le> x \<Longrightarrow> 0 \<le> fl64 x"
  using fl64_pos [of x] by (cases "x = 0") (simp_all add: fl64_def)

lemma fl64_mono_pos:
  assumes "0 < x" and "x \<le> y"
  shows "fl64 x \<le> fl64 y"
proof -
  from assms have ypos: "0 < y" by simp
  have le: "exponent x \<le> exponent y"
    using assms by (rule exponent_mono)
  show ?thesis
  proof (cases "exponent x = exponent y")
    case True
    let ?e = "exponent y"
    have "x * 2 powi (52 - ?e) \<le> y * 2 powi (52 - ?e)"
      using assms(2) by (simp add: mult_right_mono)
    then have "round_even (x * 2 powi (52 - ?e)) \<le> round_even (y * 2 powi (52 - ?e))"
      by (rule round_even_mono)
    then have "(of_int (round_even (x * 2 powi (52 - ?e))) :: rat) \<le> of_int (round_even (y * 2 powi (52 - ?e)))"
      by (simp only: of_int_le_iff)
    then have "of_int (round_even (x * 2 powi (52 - ?e))) * 2 powi (?e - 52)
        \<le> of_int (round_even (y * 2 powi (52 - ?e))) * (2::rat) powi (?e - 52)"
      by (rule mult_right_mono) simp
    then show ?thesis
      using assms(1) ypos True by (simp add: fl64_pos_eq)
  next
    case False
    with le have "exponent x + 1 \<le> exponent y" by simp
    then have "(2::rat) powi (exponent x + 1) \<le> 2 powi exponent y"
      by (rule power_int_increasing) simp
    with fl64_bounds(2) [OF assms(1)] fl64_bounds(1) [OF ypos] show ?thesis
      by linarith
  qed
qed

lemma fl64_mono: "0 \<le> x \<Longrightarrow> x \<le> y \<Longrightarrow> fl64 x \<le> fl64 y"
proof (cases "x = 0")
  case True
  assume "x \<le> y"
  with True have "0 \<le> y" by simp
  then have "0 \<le> fl64 y" by (rule fl64_nonneg)
  with True show ?thesis by (simp add: fl64_def)
next
  case False
  assume "0 \<le> x" and "x \<le> y"
  with False show ?thesis
    by (intro fl64_mono_pos) simp_all
qed

lemma fl64_exact:
  assumes "0 < x" and "x = of_int m * 2 powi (exponent x - 52)"
  shows "fl64 x = x"
proof -
  let ?e = "exponent x"
  have "x * 2 powi (52 - ?e) = of_int m * (2 powi (?e - 52) * 2 powi (52 - ?e))"
    by (subst assms(2)) simp
  also have "(2::rat) powi (?e - 52) * 2 powi (52 - ?e) = 1"
    by (simp add: powi_split)
  finally have "round_even (x * 2 powi (52 - ?e)) = m"
    by (simp add: round_even_of_int)
  with assms show ?thesis
    by (simp add: fl64_pos_eq)
qed

lemma fl64_idem:
  assumes "0 \<le> x"
  shows "fl64 (fl64 x) = fl64 x"
proof (cases "x = 0")
  case True
  then show ?thesis by (simp add: fl64_def)
next
  case False
  with assms have pos: "0 < x" by simp
  let ?e = "exponent x"
  let ?m = "round_even (x * 2 powi (52 - ?e))"
  have f: "fl64 x = of_int ?m * 2 powi (?e - 52)"
    using pos by (rule fl64_pos_eq)
  have fpos: "0 < fl64 x" using pos by (rule fl64_pos)
  show ?thesis
  proof (cases "fl64 x < 2 powi (?e + 1)")
    case True
    with fl64_bounds(1) [OF pos] have "exponent (fl64 x) = ?e"
      by (intro exponent_unique) simp_all
    with f have "fl64 x = of_int ?m * 2 powi (exponent (fl64 x) - 52)" by simp
    with fpos show ?thesis by (rule fl64_exact)
  next
    case False
    with fl64_bounds(2) [OF pos] have top: "fl64 x = 2 powi (?e + 1)" by simp
    have "(2::rat) powi (?e + 1) < 2 powi (?e + 1 + 1)"
      by (rule power_int_strict_increasing) simp_all
    with top have "exponent (fl64 x) = ?e + 1"
      by (intro exponent_unique) simp_all
    moreover have "(2::rat) powi (?e + 1) = of_int (2 ^ 52) * 2 powi (?e + 1 - 52)"
    proof -
      have "(2::rat) powi 52 * 2 powi (?e + 1 - 52) = 2 powi (52 + (?e + 1 - 52))"
        by (rule powi_split)
      moreover have "52 + (?e + 1 - 52) = ?e + 1" by simp
      moreover have "(of_int (2 ^ 52) :: rat) = 2 powi 52" by simp
      ultimately show ?thesis by (simp add: add.commute)
    qed
    ultimately have "fl64 x = of_int (2 ^ 52) * 2 powi (exponent (fl64 x) - 52)"
      using top by simp
    with fpos show ?thesis by (rule fl64_exact)
  qed
qed

lemma fl64_error:
  assumes "0 < x"
  shows "x - x / 2 ^ 53 \<le> fl64 x"
proof -
  let ?e = "exponent x"
  let ?u = "(2::rat) powi (?e - 52)"
  have u: "0 < ?u" by simp
  have inv: "2 powi (52 - ?e) * ?u = 1"
    by (simp add: powi_split)
  have "x * 2 powi (52 - ?e) - 1 / 2 \<le> of_int (round_even (x * 2 powi (52 - ?e)))"
    by (rule round_even_error)
  then have "(x * 2 powi (52 - ?e) - 1 / 2) * ?u \<le> of_int (round_even (x * 2 powi (52 - ?e))) * ?u"
    using u by (simp only: mult_le_cancel_right_pos)
  moreover have "(x * 2 powi (52 - ?e) - 1 / 2) * ?u = x - ?u / 2"
    using inv by (simp add: algebra_simps)
  ultimately have a: "x - ?u / 2 \<le> fl64 x"
    using assms by (simp add: fl64_pos_eq)
  have "?u * 2 ^ 52 = 2 powi ?e"
  proof -
    have "?u * 2 powi 52 = 2 powi (?e - 52 + 52)" by (rule powi_split)
    moreover have "?e - 52 + 52 = ?e" by simp
    moreover have "(2::rat) powi 52 = 2 ^ 52" by simp
    ultimately show ?thesis by simp
  qed
  with exponent_bounds(1) [OF assms] have "?u * 2 ^ 52 \<le> x" by simp
  then have "?u / 2 \<le> x / 2 ^ 53" by (simp add: field_simps)
  with a show ?thesis by linarith
qed

subsection \<open>The retry wrapper\<close>

lemma fl64_consts: "fl64 0 = 0" "fl64 1 = 1" "fl64 (1 / 2) = 1 / 2" "fl64 (1 / 4) = 1 / 4"
  by code_simp+

lemma next_retry_sleep_lower: "1 / 4 \<le> next_retry_sleep n r"
proof -
  let ?d = "fl64 (of_nat r / 1000)"
  let ?b = "fl64 (?d + 1)"
  let ?c = "fl64 (?b - randomization_factor)"
  let ?e = "fl64 (retry_interval * ?c)"
  let ?p = "fl64 (multiplier ^ n)"
  have d: "0 \<le> ?d" by (rule fl64_nonneg) simp
  have "fl64 1 \<le> ?b" using d by (intro fl64_mono) simp_all
  then have b: "1 \<le> ?b" by (simp add: fl64_consts)
  have "fl64 (1 / 2) \<le> ?c" using b by (intro fl64_mono) (simp_all add: randomization_factor_def)
  then have c: "1 / 2 \<le> ?c" by (simp add: fl64_consts)
  have "fl64 (1 / 4) \<le> ?e" using c by (intro fl64_mono) (simp_all add: retry_interval_def)
  then have e: "1 / 4 \<le> ?e" by (simp add: fl64_consts)
  have "(1::rat) \<le> multiplier ^ n" by (simp add: multiplier_def one_le_power)
  then have "fl64 1 \<le> ?p" by (intro fl64_mono) simp_all
  then have p: "1 \<le> ?p" by (simp add: fl64_consts)
  have "1 * (1 / 4) \<le> ?p * ?e"
    by (rule mult_mono [OF p e]) (use p in simp_all)
  then have "fl64 (1 / 4) \<le> fl64 (?p * ?e)" by (intro fl64_mono) simp_all
  then show ?thesis by (simp add: fl64_consts next_retry_sleep_def)
qed

lemma backoff_Suc: "backoff draw (Suc n) = backoff draw n @ [next_retry_sleep n (draw n)]"
  by (simp add: backoff_def)

lemma length_backoff: "length (backoff draw n) = n"
  by (simp add: backoff_def)

lemma butlast_backoff: "butlast (backoff draw n) = backoff draw (n - 1)"
  by (cases n) (simp_all add: backoff_Suc, simp add: backoff_def)

lemma tracked_snoc: "tracked (sl @ [s]) = fl64 (tracked sl + s)"
  by (simp add: tracked_def)

lemma tracked_backoff: "fl64 (tracked (backoff draw n)) = tracked (backoff draw n) \<and> 0 \<le> tracked (backoff draw n)"
proof (induction n)
  case 0
  show ?case by (simp add: backoff_def tracked_def fl64_consts)
next
  case (Suc n)
  have s: "0 \<le> next_retry_sleep n (draw n)"
    using next_retry_sleep_lower [of n "draw n"] by simp
  with Suc have nn: "0 \<le> tracked (backoff draw n) + next_retry_sleep n (draw n)" by simp
  show ?case
    using nn by (simp add: backoff_Suc tracked_snoc fl64_idem fl64_nonneg)
qed

lemma tracked_step: "tracked (backoff draw n) \<le> tracked (backoff draw (Suc n))"
proof -
  have s: "0 \<le> next_retry_sleep n (draw n)"
    using next_retry_sleep_lower [of n "draw n"] by simp
  have "fl64 (tracked (backoff draw n)) \<le> fl64 (tracked (backoff draw n) + next_retry_sleep n (draw n))"
    using tracked_backoff [of draw n] s by (intro fl64_mono) simp_all
  then show ?thesis
    using tracked_backoff [of draw n] by (simp add: backoff_Suc tracked_snoc)
qed

lemma tracked_mono: "k \<le> l \<Longrightarrow> tracked (backoff draw k) \<le> tracked (backoff draw l)"
proof (induction l)
  case 0
  then show ?case by simp
next
  case (Suc l)
  show ?case
  proof (cases "k = Suc l")
    case True
    then show ?thesis by simp
  next
    case False
    with Suc.prems have "k \<le> l" by simp
    then have "tracked (backoff draw k) \<le> tracked (backoff draw l)"
      by (rule Suc.IH)
    also have "\<dots> \<le> tracked (backoff draw (Suc l))"
      by (rule tracked_step)
    finally show ?thesis .
  qed
qed

lemma tracked_progress:
  assumes "0 \<le> t" and "t < max_sleep_time" and "1 / 4 \<le> s"
  shows "t + 1 / 8 \<le> fl64 (t + s)"
proof -
  from assms have pos: "0 < t + s" by simp
  have a: "(t + s) - (t + s) / 2 ^ 53 \<le> fl64 (t + s)"
    using pos by (rule fl64_error)
  have "(t + s) / 2 ^ 53 \<le> s / 2"
    using assms by (simp add: field_simps max_sleep_time_def)
  with a assms(3) show ?thesis
    by linarith
qed

lemma retry_loop_run:
  assumes "sl = backoff draw n"
    and "tot = tracked sl"
    and "\<forall>i<n. \<exists>e. call i = Inl e \<and> is_ConnectionError e"
    and "case lexc of None \<Rightarrow> n = 0 | Some e \<Rightarrow> 0 < n \<and> call (n - 1) = Inl e \<and> is_ConnectionError e"
    and "tracked (butlast sl) < max_sleep_time"
  shows "\<exists>r. retry_loop call draw lexc tot n sl = Some r \<and>
     slept r = backoff draw (length (slept r)) \<and>
     (\<forall>i<length (slept r). \<exists>e. call i = Inl e \<and> is_ConnectionError e) \<and>
     tracked (butlast (slept r)) < max_sleep_time \<and>
     (gave_up call r \<or> passed_on call r)"
  using assms
proof (induction "nat \<lceil>(max_sleep_time - tot) * 8\<rceil>" arbitrary: sl n tot lexc rule: less_induct)
  case less
  note len = length_backoff [of draw n]
  have tot0: "0 \<le> tot"
    using less.prems(1,2) tracked_backoff [of draw n] by simp
  show ?case
  proof (cases "tot < max_sleep_time")
    case below: True
    show ?thesis
    proof (cases "call n")
      case (Inr v)
      with below have r: "retry_loop call draw lexc tot n sl = Some \<lparr>outcome = Inr v, slept = sl, calls = n + 1\<rparr>"
        by (subst retry_loop.simps) simp
      with less.prems below Inr len show ?thesis
        by (simp add: passed_on_def)
    next
      case (Inl exc)
      show ?thesis
      proof (cases "is_ConnectionError exc")
        case False
        with below Inl have r: "retry_loop call draw lexc tot n sl = Some \<lparr>outcome = Inl exc, slept = sl, calls = n + 1\<rparr>"
          by (subst retry_loop.simps) simp
        with less.prems below Inl False len show ?thesis
          by (simp add: passed_on_def)
      next
        case True
        let ?s = "next_retry_sleep n (draw n)"
        let ?t = "fl64 (tot + ?s)"
        have r: "retry_loop call draw lexc tot n sl = retry_loop call draw (Some exc) ?t (n + 1) (sl @ [?s])"
          using below Inl True by (subst retry_loop.simps) simp
        have prog: "tot + 1 / 8 \<le> ?t"
          using tot0 below next_retry_sleep_lower by (rule tracked_progress)
        have "(max_sleep_time - ?t) * 8 \<le> (max_sleep_time - tot) * 8 - 1"
          using prog by simp
        then have "\<lceil>(max_sleep_time - ?t) * 8\<rceil> \<le> \<lceil>(max_sleep_time - tot) * 8 - 1\<rceil>"
          by (rule ceiling_mono)
        moreover have "0 < \<lceil>(max_sleep_time - tot) * 8\<rceil>"
          using below by simp
        ultimately have m: "nat \<lceil>(max_sleep_time - ?t) * 8\<rceil> < nat \<lceil>(max_sleep_time - tot) * 8\<rceil>"
          by simp
        have a: "sl @ [?s] = backoff draw (n + 1)"
          using less.prems(1) by (simp add: backoff_Suc)
        have b: "?t = tracked (sl @ [?s])"
          using less.prems(2) by (simp add: tracked_snoc)
        have c: "\<forall>i<n + 1. \<exists>e. call i = Inl e \<and> is_ConnectionError e"
          using less.prems(3) Inl True by (auto simp: less_Suc_eq)
        have d: "case Some exc of None \<Rightarrow> n + 1 = 0
                 | Some e \<Rightarrow> 0 < n + 1 \<and> call (n + 1 - 1) = Inl e \<and> is_ConnectionError e"
          using Inl True by simp
        have e: "tracked (butlast (sl @ [?s])) < max_sleep_time"
          using below less.prems(2) by simp
        from less.hyps [OF m a b c d e] r show ?thesis
          by simp
      qed
    qed
  next
    case above: False
    have "n \<noteq> 0"
    proof
      assume "n = 0"
      with less.prems have "tot = 0" by (simp add: backoff_def tracked_def)
      with above show False by (simp add: max_sleep_time_def)
    qed
    with less.prems(4) obtain e where lexc: "lexc = Some e" and e: "call (n - 1) = Inl e" "is_ConnectionError e"
      by (cases lexc) auto
    with above have r: "retry_loop call draw lexc tot n sl = Some \<lparr>outcome = Inl e, slept = sl, calls = n\<rparr>"
      by (subst retry_loop.simps) simp
    have "sl \<noteq> []"
      using \<open>n \<noteq> 0\<close> less.prems(1) len by auto
    with r e above less.prems len show ?thesis
      by (simp add: gave_up_def)
  qed
qed

lemma retry_http_post:
  "\<exists>r. retry_http call draw = Some r \<and>
     slept r = backoff draw (length (slept r)) \<and>
     (\<forall>i<length (slept r). \<exists>e. call i = Inl e \<and> is_ConnectionError e) \<and>
     tracked (butlast (slept r)) < max_sleep_time \<and>
     (gave_up call r \<or> passed_on call r)"
  unfolding retry_http_def
  by (rule retry_loop_run) (simp_all add: backoff_def tracked_def max_sleep_time_def)


lemma retry_http_exhausts:
  assumes conn: "\<forall>i<k. \<exists>x. call i = Inl x \<and> is_ConnectionError x"
    and pos: "0 < k"
    and below: "tracked (backoff draw (k - 1)) < max_sleep_time"
    and cap: "max_sleep_time \<le> tracked (backoff draw k)"
  shows "retry_http call draw = Some \<lparr>outcome = call (k - 1), slept = backoff draw k, calls = k\<rparr>"
proof -
  from retry_http_post [of call draw] obtain r where run: "retry_http call draw = Some r"
    and sl: "slept r = backoff draw (length (slept r))"
    and prev: "tracked (butlast (slept r)) < max_sleep_time"
    and alt: "gave_up call r \<or> passed_on call r"
    by blast
  let ?l = "length (slept r)"
  have prev': "tracked (backoff draw (?l - 1)) < max_sleep_time"
    using prev sl butlast_backoff [of draw ?l] by simp
  have not_passed: "\<not> passed_on call r"
  proof
    assume p: "passed_on call r"
    then have "tracked (backoff draw ?l) < max_sleep_time"
      using sl by (simp add: passed_on_def)
    with cap have "\<not> k \<le> ?l"
      using tracked_mono [of k ?l draw] by auto
    then have "?l < k" by simp
    with conn obtain x where "call ?l = Inl x" "is_ConnectionError x" by blast
    with p show False by (auto simp: passed_on_def)
  qed
  with alt have g: "gave_up call r" by simp
  then have "max_sleep_time \<le> tracked (slept r)"
    by (auto simp: gave_up_def)
  with sl have top: "max_sleep_time \<le> tracked (backoff draw ?l)"
    by simp
  have "\<not> ?l \<le> k - 1"
    using top below tracked_mono [of ?l "k - 1" draw] by auto
  moreover have "\<not> k \<le> ?l - 1"
    using cap prev' tracked_mono [of k "?l - 1" draw] by auto
  ultimately have eq: "?l = k" by simp
  from g eq have "outcome r = call (k - 1)" and "calls r = k"
    by (auto simp: gave_up_def)
  moreover from sl eq have "slept r = backoff draw k" by simp
  ultimately have "r = \<lparr>outcome = call (k - 1), slept = backoff draw k, calls = k\<rparr>"
    by (cases r) simp
  with run show ?thesis by simp
qed


lemma sleeps_to_ten:
  "next_retry_sleep 0 942 = 6494190662668255 / 9007199254740992"
  "next_retry_sleep (Suc 0) 880 = 4661225614328463 / 4503599627370496"
  "next_retry_sleep 2 561 = 1343902276305027 / 1125899906842624"
  "next_retry_sleep 3 237 = 175033455048917 / 140737488355328"
  "next_retry_sleep 4 414 = 651209950806147 / 281474976710656"
  "next_retry_sleep 5 420 = 7865818224179281 / 2251799813685248"
  "next_retry_sleep 6 0 = 729 / 256"
  unfolding next_retry_sleep_def multiplier_def retry_interval_def randomization_factor_def
  by (simp, code_simp)+

lemma upt7: "[0..<7] = [0, 1, 2, 3, 4, 5, 6]" "[0..<6] = [0, 1, 2, 3, 4, 5]" "[0..<5] = [0, 1, 2, 3, 4]" "[0..<2] = [0, 1]"
  by (simp_all add: upt_rec)





lemma backoff_to_ten:
  "backoff draws_to_ten 6 =
     [6494190662668255 / 9007199254740992, 4661225614328463 / 4503599627370496,
      1343902276305027 / 1125899906842624, 175033455048917 / 140737488355328,
      651209950806147 / 281474976710656, 7865818224179281 / 2251799813685248]"
  "backoff draws_to_ten 7 =
     [6494190662668255 / 9007199254740992, 4661225614328463 / 4503599627370496,
      1343902276305027 / 1125899906842624, 175033455048917 / 140737488355328,
      651209950806147 / 281474976710656, 7865818224179281 / 2251799813685248, 729 / 256]"
  by (simp_all add: backoff_def upt7 draws_to_ten_def sleeps_to_ten)

lemma tracked_to_ten:
  "tracked [6494190662668255 / 9007199254740992, 4661225614328463 / 4503599627370496,
      1343902276305027 / 1125899906842624, 175033455048917 / 140737488355328,
      651209950806147 / 281474976710656, 7865818224179281 / 2251799813685248]
    = 5629499534213119 / 562949953421312"
  "tracked [6494190662668255 / 9007199254740992, 4661225614328463 / 4503599627370496,
      1343902276305027 / 1125899906842624, 175033455048917 / 140737488355328,
      651209950806147 / 281474976710656, 7865818224179281 / 2251799813685248, 729 / 256]
    = 7232587487510527 / 562949953421312"
  by code_simp+

lemma rounded_below_cap_run:
  "retry_http always_refused draws_to_ten =
     Some \<lparr>outcome = Inl (ConnectionError ''refused''), slept = backoff draws_to_ten 7, calls = 7\<rparr>"
proof -
  have "retry_http always_refused draws_to_ten =
      Some \<lparr>outcome = always_refused (7 - 1), slept = backoff draws_to_ten 7, calls = 7\<rparr>"
    by (rule retry_http_exhausts)
      (simp_all add: always_refused_def backoff_to_ten tracked_to_ten max_sleep_time_def)
  then show ?thesis
    by (simp add: always_refused_def)
qed






subsection \<open>Fetching the upstream specifications\<close>












subsection \<open>Placeholder substitution\<close>




lemma parse_text_append: "parse_text (xs @ ys) s = parse_text ys (parse_text xs s)"
  by (induction xs arbitrary: s) auto



subsection \<open>Merging definitions\<close>












subsection \<open>Excluding paths\<close>

text \<open>
  C6. On the example of the claim (and of the test suite) \<^verbatim>\<open>exclude_paths\<close> drops
  \<^verbatim>\<open>post\<close> from the named path and keeps the rest. With the two rules
  \<^verbatim>\<open>POST /a\<close> and \<^verbatim>\<open>GET /a\<close> the dictionary comprehension keeps only the later
  rule for the path: \<^verbatim>\<open>get\<close> is removed and \<^verbatim>\<open>post\<close>, which the first rule names,
  stays.
\<close>

theorem exclude_paths_keeps_one_rule_per_path:
  "exclude_paths test_yaml test_paths =
     Inr (test_paths\<lparr>paths :=
       [(''/identifications/{id}/history/'', JDict [(''get'', JDict [])]),
        (''path'', JDict [(''get'', JDict []), (''post'', JDict [])])]\<rparr>) \<and>
   exclude_paths two_rules path_a =
     Inr (path_a\<lparr>paths := [(''/a'', JDict [(''post'', JDict [])])]\<rparr>)"
  by (simp add: exclude_paths_def test_yaml_def two_rules_def test_paths_def path_a_def
      initial_swagger_def py_index_def py_lower_def lower_char_def exclude_in_path_def
      py_items_def del_action_def)

subsection \<open>Redacting a response\<close>

text \<open>
  C7. On the example of the claim \<^verbatim>\<open>filter_definition\<close> removes \<^verbatim>\<open>id\<close> from the
  outer and from the nested object. On a response of the same schema that has no
  \<^verbatim>\<open>id\<close>, the unguarded \<^verbatim>\<open>del doc[key]\<close> raises \<^verbatim>\<open>KeyError\<close>.
\<close>

theorem filter_definition_fails_on_absent_field:
  "filter_definition test_exclude_fields test_resolver test_doc =
     Inr (JList [JDict [(''test'', JStr ''456''), (''sub'', JDict [(''test'', JStr ''147'')])]]) \<and>
   filter_definition test_exclude_fields test_resolver doc_without_id = Inl (KeyError ''id'')"
  by (simp add: test_exclude_fields_def test_resolver_def test_doc_def doc_without_id_def
      py_contains_def)

subsection \<open>Building the upstream URL\<close>

text \<open>
  C8. With one placeholder in the URL the keyword argument is substituted. With two, the
  greedy pattern matches from the first opening brace to the last closing brace, the text
  found is the name of no keyword argument, and the URL is sent with both placeholders
  unreplaced.
\<close>

theorem build_url_leaves_two_placeholders:
  "build_url ''http://trax/v1'' ''/a/{x}'' ''q=1'' [(''x'', ''7'')] = ''http://trax/v1/a/7?q=1'' \<and>
   findall_braces ''http://trax/v1/a/{x}/b/{y}?q=1'' = [''x}/b/{y''] \<and>
   build_url ''http://trax/v1'' ''/a/{x}/b/{y}'' ''q=1'' [(''x'', ''7''), (''y'', ''8'')] =
     ''http://trax/v1/a/{x}/b/{y}?q=1''"
  by (simp add: build_url_def last_close_def py_replace_def upt_rec)

subsection \<open>Forwarding the headers\<close>

lemma map_of_fold_update:
  "map_of (fold (\<lambda>kv d. AList.update (fst kv) (snd kv) d) pairs d0) = map_of d0 ++ map_of (rev pairs)"
proof (induction pairs arbitrary: d0)
  case Nil
  then show ?case by simp
next
  case (Cons kv pairs)
  have "map_of (AList.update (fst kv) (snd kv) d0) ++ map_of (rev pairs) =
      map_of d0 ++ (map_of [kv] ++ map_of (rev pairs))"
    by (cases kv) (simp add: update_conv' map_add_upd_left fun_eq_iff map_add_def split: option.splits)
  with Cons.IH show ?case
    by simp
qed

lemma map_of_py_dict: "map_of (py_dict pairs) = map_of (rev pairs)"
  by (simp add: py_dict_def map_of_fold_update)

lemma distinct_fold_update:
  "distinct (map fst d0) \<Longrightarrow>
     distinct (map fst (fold (\<lambda>kv d. AList.update (fst kv) (snd kv) d) pairs d0))"
  by (induction pairs arbitrary: d0) (simp_all add: distinct_update)

lemma distinct_py_dict: "distinct (map fst (py_dict pairs))"
  by (simp add: py_dict_def distinct_fold_update)

lemma map_of_filter_values:
  "distinct (map fst d) \<Longrightarrow>
     map_of (filter (\<lambda>kv. Q (snd kv)) d) k =
       (case map_of d k of None \<Rightarrow> None | Some v \<Rightarrow> if Q v then Some v else None)"
proof (induction d)
  case Nil
  then show ?case by simp
next
  case (Cons kv d)
  obtain k' v' where kv: "kv = (k', v')" by (cases kv)
  from Cons.prems kv have fresh_key: "k' \<notin> fst ` set d" and dd: "distinct (map fst d)"
    by simp_all
  from fresh_key have none: "map_of (filter (\<lambda>kv. Q (snd kv)) d) k' = None"
    by (force simp: map_of_eq_None_iff)
  from Cons.IH [OF dd] none show ?case
    by (auto simp: kv)
qed

lemma map_of_nonempty_headers:
  "map_of (filter (\<lambda>kv. snd kv \<noteq> []) (py_dict hs)) = inbound hs"
  by (rule ext)
    (simp add: map_of_filter_values [where Q = "\<lambda>v. v \<noteq> []", OF distinct_py_dict] map_of_py_dict inbound_def)

lemma distinct_filter_keys: "distinct (map fst d) \<Longrightarrow> distinct (map fst (filter P d))"
  by (induction d) auto

text \<open>
  C9, as the code has it. The headers sent upstream form a dictionary. Without a multipart
  content type they are the inbound headers that have a non-empty value; a header with an
  empty value is not forwarded. With a multipart content type and a non-empty
  \<^verbatim>\<open>Content-Length\<close>, that header is removed and its value is sent as
  \<^verbatim>\<open>X-Content-Length\<close> (in place of an inbound header of that name, if any), and the
  other non-empty headers are forwarded unchanged.
\<close>

theorem upstream_headers_forwarded:
  "distinct (map fst (upstream_headers hs)) \<and>
   (\<not> prefix ''multipart/form-data'' (content_type hs) \<longrightarrow>
      map_of (upstream_headers hs) = inbound hs) \<and>
   (prefix ''multipart/form-data'' (content_type hs) \<and> inbound hs ''Content-Length'' = None \<longrightarrow>
      map_of (upstream_headers hs) = inbound hs) \<and>
   (prefix ''multipart/form-data'' (content_type hs) \<and> inbound hs ''Content-Length'' = Some v \<longrightarrow>
      map_of (upstream_headers hs) =
        ((inbound hs)(''X-Content-Length'' \<mapsto> v))(''Content-Length'' := None))"
proof -
  let ?headers = "filter (\<lambda>kv. snd kv \<noteq> []) (py_dict hs)"
  have d: "distinct (map fst ?headers)"
    by (rule distinct_filter_keys) (rule distinct_py_dict)
  have m: "map_of ?headers = inbound hs"
    by (rule map_of_nonempty_headers)
  have 1: "distinct (map fst (upstream_headers hs))"
    using d by (simp add: upstream_headers_def Let_def distinct_update distinct_delete split: option.splits)
  have 2: "map_of (upstream_headers hs) = inbound hs"
    if "\<not> prefix ''multipart/form-data'' (content_type hs)"
    using that m by (simp add: upstream_headers_def)
  have 3: "map_of (upstream_headers hs) = inbound hs"
    if "prefix ''multipart/form-data'' (content_type hs) \<and> inbound hs ''Content-Length'' = None"
    using that m by (simp add: upstream_headers_def)
  have 4: "map_of (upstream_headers hs) =
        ((inbound hs)(''X-Content-Length'' \<mapsto> v))(''Content-Length'' := None)"
    if "prefix ''multipart/form-data'' (content_type hs) \<and> inbound hs ''Content-Length'' = Some v"
    using that m by (simp add: upstream_headers_def delete_conv' update_conv')
  from 1 2 3 4 show ?thesis by blast
qed

theorem upstream_headers_forwarded_witness:
  "map_of (upstream_headers multipart_headers) ''X-Content-Length'' = Some ''42'' \<and>
   map_of (upstream_headers multipart_headers) ''Content-Length'' = None \<and>
   map_of (upstream_headers multipart_headers) ''Host'' = Some ''trax'' \<and>
   map_of (upstream_headers plain_headers) ''Host'' = Some ''trax''"
proof -
  have a: "prefix ''multipart/form-data'' (content_type multipart_headers) \<and>
      inbound multipart_headers ''Content-Length'' = Some ''42''"
    by (simp add: content_type_def multipart_headers_def inbound_def)
  have b: "\<not> prefix ''multipart/form-data'' (content_type plain_headers)"
    by (simp add: content_type_def plain_headers_def)
  from a upstream_headers_forwarded [of multipart_headers "''42''"]
  have "map_of (upstream_headers multipart_headers) =
      ((inbound multipart_headers)(''X-Content-Length'' \<mapsto> ''42''))(''Content-Length'' := None)"
    by blast
  moreover from b upstream_headers_forwarded [of plain_headers "[]"]
  have "map_of (upstream_headers plain_headers) = inbound plain_headers"
    by blast
  ultimately show ?thesis
    by (simp add: inbound_def multipart_headers_def plain_headers_def)
qed

text \<open>
  C9 as stated fails: of the inbound headers \<^verbatim>\<open>Content-Type: application/json\<close>,
  \<^verbatim>\<open>Accept:\<close> (empty) and \<^verbatim>\<open>Host: trax\<close>, the \<^verbatim>\<open>Accept\<close> header is not sent
  upstream, although the content type is not multipart.
\<close>

theorem upstream_headers_drops_empty_header:
  "upstream_headers plain_headers = [(''Content-Type'', ''application/json''), (''Host'', ''trax'')] \<and>
   map_of plain_headers ''Accept'' = Some [] \<and>
   map_of (upstream_headers plain_headers) ''Accept'' = None"
  by (simp add: upstream_headers_def plain_headers_def py_dict_def content_type_def)

subsection \<open>Excluding fields from the merged definitions\<close>

lemma exclude_field_well_formed:
  assumes "well_formed sp"
  shows "\<exists>sp'. exclude_field key sp = Inr sp' \<and> well_formed sp'"
proof -
  from assms obtain d r p where sp: "sp = JDict d" and r: "map_of d ''required'' = Some (JList r)"
    and p: "map_of d ''properties'' = Some (JDict p)"
    by (auto simp: well_formed_def)
  show ?thesis
    by (simp add: exclude_field_def sp r p py_getitem_def py_contains_def py_remove_def
        py_delitem_def set_field_def update_conv' well_formed_def)
qed

lemma for_each_exclude_field_well_formed:
  "well_formed sp \<Longrightarrow> \<exists>sp'. for_each exclude_field keys sp = Inr sp' \<and> well_formed sp'"
proof (induction keys arbitrary: sp)
  case Nil
  then show ?case by simp
next
  case (Cons key keys)
  from exclude_field_well_formed [OF Cons.prems, of key]
  obtain sp1 where 1: "exclude_field key sp = Inr sp1" and 2: "well_formed sp1"
    by blast
  from Cons.IH [OF 2] 1 show ?case
    by simp
qed

lemma exclude_field_needs_both:
  assumes "exclude_field key sp = Inr sp'"
  shows "has_both sp"
proof -
  from assms obtain r where r: "py_getitem sp ''required'' = Inr r"
    by (auto simp: exclude_field_def split: sum.splits)
  then obtain d where sp: "sp = JDict d" and dr: "map_of d ''required'' = Some r"
    by (auto simp: py_getitem_def split: json.splits option.splits)
  from assms r obtain sp1 p where sp1: "sp1 = sp \<or> (\<exists>r'. sp1 = set_field sp ''required'' r')"
    and p: "py_getitem sp1 ''properties'' = Inr p"
    by (auto simp: exclude_field_def split: sum.splits if_splits)
  from sp1 p sp have "map_of d ''properties'' = Some p"
    by (auto simp: py_getitem_def set_field_def update_conv' split: option.splits)
  with sp dr show ?thesis
    by (auto simp: has_both_def)
qed

lemma for_each_exclude_field_needs_both:
  "for_each exclude_field keys sp = Inr sp' \<Longrightarrow> keys \<noteq> [] \<Longrightarrow> has_both sp"
  by (cases keys) (auto split: sum.splits dest: exclude_field_needs_both)

lemma exclude_field_no_required:
  "map_of d ''required'' = None \<Longrightarrow> exclude_field key (JDict d) = Inl (KeyError ''required'')"
  by (simp add: exclude_field_def py_getitem_def)

lemma exclude_field_no_properties:
  "map_of d ''required'' = Some (JList r) \<Longrightarrow> map_of d ''properties'' = None \<Longrightarrow>
     exclude_field key (JDict d) = Inl (KeyError ''properties'')"
  by (simp add: exclude_field_def py_getitem_def py_contains_def py_remove_def set_field_def update_conv')

lemma exclude_fields_loop_total:
  "(\<forall>name sp. (name, sp) \<in> set defs \<and> name \<in> fst ` set ef \<longrightarrow> well_formed sp) \<Longrightarrow>
     \<exists>defs'. exclude_fields_loop ef defs = Inr defs' \<and> map fst defs' = map fst defs"
proof (induction defs)
  case Nil
  then show ?case by simp
next
  case (Cons item defs)
  obtain name sp where item: "item = (name, sp)" by (cases item)
  from Cons.prems have "\<forall>name sp. (name, sp) \<in> set defs \<and> name \<in> fst ` set ef \<longrightarrow> well_formed sp"
    by auto
  from Cons.IH [OF this] obtain rest' where rest: "exclude_fields_loop ef defs = Inr rest'"
    and names: "map fst rest' = map fst defs"
    by blast
  have "\<exists>sp'. (case map_of ef name of None \<Rightarrow> Inr sp | Some keys \<Rightarrow> for_each exclude_field keys sp) = Inr sp'"
  proof (cases "map_of ef name")
    case None
    then show ?thesis by simp
  next
    case (Some keys)
    then have "(name, keys) \<in> set ef" by (rule map_of_SomeD)
    then have "name \<in> fst ` set ef" by force
    with Cons.prems item have "well_formed sp" by auto
    from for_each_exclude_field_well_formed [OF this, of keys] Some show ?thesis
      by auto
  qed
  then obtain sp' where "(case map_of ef name of None \<Rightarrow> Inr sp | Some keys \<Rightarrow> for_each exclude_field keys sp) = Inr sp'"
    by blast
  with rest names item show ?case
    by simp
qed

lemma exclude_fields_loop_needs_both:
  "exclude_fields_loop ef defs = Inr defs' \<Longrightarrow> (name, sp) \<in> set defs \<Longrightarrow>
     map_of ef name = Some keys \<Longrightarrow> keys \<noteq> [] \<Longrightarrow> has_both sp"
proof (induction defs arbitrary: defs')
  case Nil
  then show ?case by simp
next
  case (Cons item defs)
  obtain name' sp' where item: "item = (name', sp')" by (cases item)
  from Cons.prems(1) item obtain sp1 rest' where
    1: "(case map_of ef name' of None \<Rightarrow> Inr sp' | Some keys \<Rightarrow> for_each exclude_field keys sp') = Inr sp1"
    and 2: "exclude_fields_loop ef defs = Inr rest'"
    by (auto split: sum.splits)
  show ?case
  proof (cases "(name, sp) = item")
    case True
    with item 1 Cons.prems(3) have "for_each exclude_field keys sp = Inr sp1"
      by simp
    then show ?thesis
      using Cons.prems(4) by (rule for_each_exclude_field_needs_both)
  next
    case False
    with Cons.prems(2) have "(name, sp) \<in> set defs" by simp
    with Cons.IH [OF 2 _ Cons.prems(3,4)] show ?thesis .
  qed
qed

text \<open>
  C10, as the code has it. Lines 250 and 252 subscript \<^verbatim>\<open>definition_spec\<close> with
  \<^verbatim>\<open>'required'\<close> and with \<^verbatim>\<open>'properties'\<close> before their membership tests. So when
  the step returns, every definition that the configuration lists with a non-empty list of
  fields is an object with both keys; a definition listed without \<^verbatim>\<open>'required'\<close>
  raises \<^verbatim>\<open>KeyError('required')\<close>, and one with a \<^verbatim>\<open>'required'\<close> list and without
  \<^verbatim>\<open>'properties'\<close> raises \<^verbatim>\<open>KeyError('properties')\<close>. When every listed definition
  has a \<^verbatim>\<open>'required'\<close> list and a \<^verbatim>\<open>'properties'\<close> dictionary the step returns, and
  the definitions keep their names and order.
\<close>

theorem remove_exclude_fields_needs_both_keys:
  "(remove_exclude_fields y swagger = Inr swagger' \<and> (name, sp) \<in> set (definitions swagger) \<and>
    map_of (exclude_fields_of y) name = Some keys \<and> keys \<noteq> [] \<longrightarrow> has_both sp) \<and>
   ((\<forall>name sp. (name, sp) \<in> set (definitions swagger) \<and> name \<in> fst ` set (exclude_fields_of y)
        \<longrightarrow> well_formed sp) \<longrightarrow>
      (\<exists>swagger'. remove_exclude_fields y swagger = Inr swagger' \<and>
         map fst (definitions swagger') = map fst (definitions swagger))) \<and>
   (keys \<noteq> [] \<and> map_of d ''required'' = None \<longrightarrow>
      for_each exclude_field keys (JDict d) = Inl (KeyError ''required'')) \<and>
   (keys \<noteq> [] \<and> map_of d ''required'' = Some (JList r) \<and> map_of d ''properties'' = None \<longrightarrow>
      for_each exclude_field keys (JDict d) = Inl (KeyError ''properties''))"
proof -
  have 1: "has_both sp"
    if h: "remove_exclude_fields y swagger = Inr swagger' \<and> (name, sp) \<in> set (definitions swagger) \<and>
      map_of (exclude_fields_of y) name = Some keys \<and> keys \<noteq> []"
  proof -
    from h obtain defs' where "exclude_fields_loop (exclude_fields_of y) (definitions swagger) = Inr defs'"
      by (auto simp: remove_exclude_fields_def split: sum.splits)
    with h show ?thesis
      using exclude_fields_loop_needs_both by blast
  qed
  have 2: "\<exists>swagger'. remove_exclude_fields y swagger = Inr swagger' \<and>
      map fst (definitions swagger') = map fst (definitions swagger)"
    if "\<forall>name sp. (name, sp) \<in> set (definitions swagger) \<and> name \<in> fst ` set (exclude_fields_of y)
        \<longrightarrow> well_formed sp"
    using exclude_fields_loop_total [OF that] by (auto simp: remove_exclude_fields_def)
  have 3: "for_each exclude_field keys (JDict d) = Inl (KeyError ''required'')"
    if "keys \<noteq> [] \<and> map_of d ''required'' = None"
    using that by (cases keys) (simp_all add: exclude_field_no_required)
  have 4: "for_each exclude_field keys (JDict d) = Inl (KeyError ''properties'')"
    if "keys \<noteq> [] \<and> map_of d ''required'' = Some (JList r) \<and> map_of d ''properties'' = None"
    using that by (cases keys) (simp_all add: exclude_field_no_properties)
  from 1 2 3 4 show ?thesis by blast
qed

theorem remove_exclude_fields_needs_both_keys_witness:
  "(\<exists>swagger'. remove_exclude_fields test_yaml complete_definition = Inr swagger' \<and>
      map fst (definitions swagger') = [''identificationsTest'']) \<and>
   for_each exclude_field [''id''] (JDict [(''properties'', JDict [(''id'', JDict [])])]) =
     Inl (KeyError ''required'') \<and>
   for_each exclude_field [''id''] (JDict [(''required'', JList [JStr ''id''])]) =
     Inl (KeyError ''properties'')"
proof -
  have a: "\<forall>name sp. (name, sp) \<in> set (definitions complete_definition) \<and>
      name \<in> fst ` set (exclude_fields_of test_yaml) \<longrightarrow> well_formed sp"
    by (simp add: complete_definition_def well_formed_def)
  have b: "[''id''] \<noteq> [] \<and> map_of [(''properties'', JDict [(''id'', JDict [])])] ''required'' = None"
    by simp
  have c: "[''id''] \<noteq> [] \<and> map_of [(''required'', JList [JStr ''id''])] ''required'' = Some (JList [JStr ''id'']) \<and>
      map_of [(''required'', JList [JStr ''id''])] ''properties'' = None"
    by simp
  from a remove_exclude_fields_needs_both_keys [where y = test_yaml and swagger = complete_definition]
  have "\<exists>swagger'. remove_exclude_fields test_yaml complete_definition = Inr swagger' \<and>
      map fst (definitions swagger') = map fst (definitions complete_definition)"
    by blast
  moreover from b remove_exclude_fields_needs_both_keys
    [where keys = "[''id'']" and d = "[(''properties'', JDict [(''id'', JDict [])])]"]
  have "for_each exclude_field [''id''] (JDict [(''properties'', JDict [(''id'', JDict [])])]) =
     Inl (KeyError ''required'')"
    by blast
  moreover from c remove_exclude_fields_needs_both_keys
    [where keys = "[''id'']" and d = "[(''required'', JList [JStr ''id''])]" and r = "[JStr ''id'']"]
  have "for_each exclude_field [''id''] (JDict [(''required'', JList [JStr ''id''])]) =
     Inl (KeyError ''properties'')"
    by blast
  ultimately show ?thesis
    by (simp add: complete_definition_def)
qed

text \<open>
  C10 as stated fails: a listed definition that carries a \<^verbatim>\<open>'required'\<close> list and no
  \<^verbatim>\<open>'properties'\<close> makes the step raise \<^verbatim>\<open>KeyError('properties')\<close>, so the
  \<^verbatim>\<open>'properties'\<close> access is no more guarded than the \<^verbatim>\<open>'required'\<close> access.
\<close>

theorem remove_exclude_fields_fails_without_properties:
  "py_getitem (JDict [(''required'', JList [JStr ''id'', JStr ''name''])]) ''required'' =
     Inr (JList [JStr ''id'', JStr ''name'']) \<and>
   definitions no_properties =
     [(''identificationsTest'', JDict [(''required'', JList [JStr ''id'', JStr ''name''])])] \<and>
   remove_exclude_fields test_yaml no_properties = Inl (KeyError ''properties'')"
  by (simp add: remove_exclude_fields_def exclude_fields_of_def test_yaml_def no_properties_def
      initial_swagger_def exclude_field_def py_getitem_def py_contains_def py_remove_def set_field_def)

end
